theory Spec2Isabelle
  imports Main "HOL-Library.Word" "HOL-Library.Code_Target_Numeral"
begin

unbundle bit_operations_syntax

section \<open>Binary Fusion Tap: the data model\<close>

text \<open>
  The program under study is \<^verbatim>\<open>examples/binary_fusion_tap.c\<close>.  Its values are
  \<^item> \<^verbatim>\<open>uint64_t\<close>: a \<open>64 word\<close>; addition, multiplication and the left shift wrap
    around modulo \<open>2 ^ 64\<close>;
  \<^item> \<^verbatim>\<open>int\<close>: a mathematical integer between \<open>INT_MIN\<close> and \<open>INT_MAX\<close>.  Signed
    arithmetic in C does not wrap: an increment beyond \<open>INT_MAX\<close> has no defined
    result, which the model records as the fault \<open>SignedOverflow\<close>;
  \<^item> \<^verbatim>\<open>char seed_str[256]\<close>: a NUL-terminated string in a buffer of 256 bytes.  The
    model keeps the characters before the NUL; a \<^verbatim>\<open>strcat\<close> whose result does not
    fit with its terminator has no defined result either, the fault \<open>BufferOverflow\<close>;
  \<^item> standard output: the string of characters written so far, passed through every
    printing function and returned extended.
\<close>

type_synonym uint64_t = "64 word"

datatype fault = BufferOverflow | SignedOverflow

definition INT_MAX :: int where
  "INT_MAX = 2147483647"

definition ULLONG_MAX :: uint64_t where
  "ULLONG_MAX = 18446744073709551615"

record BinaryFusionResult =
  k :: int
  seed_value :: uint64_t
  tap_state :: uint64_t
  zpe_overflow :: uint64_t

section \<open>The C library functions the program calls\<close>

text \<open>
  \<^verbatim>\<open>printf\<close> and \<^verbatim>\<open>sprintf\<close> render a number in decimal without padding: the
  digits of \<open>n div 10\<close> followed by the last digit, and the single digit \<open>0\<close> for zero.
\<close>

definition digit_char :: "nat \<Rightarrow> char" where
  "digit_char d = ''0123456789'' ! d"

function dec_digits :: "nat \<Rightarrow> string" where
  "dec_digits n = (if n < 10 then [digit_char n] else dec_digits (n div 10) @ [digit_char (n mod 10)])"
  by pat_completeness auto
termination
  by (relation "measure id") auto

text \<open>The conversion \<^verbatim>\<open>%d\<close> of an \<^verbatim>\<open>int\<close> and \<^verbatim>\<open>%llu\<close> of an unsigned 64-bit value.\<close>

definition fmt_d :: "int \<Rightarrow> string" where
  "fmt_d i = (if i < 0 then CHR ''-'' # dec_digits (nat (- i)) else dec_digits (nat i))"

definition fmt_llu :: "uint64_t \<Rightarrow> string" where
  "fmt_llu n = dec_digits (unat n)"

text \<open>
  \<^verbatim>\<open>strtoull(s, NULL, 10)\<close>: skip white space, accept one optional sign, read the
  longest run of decimal digits.  No digits give 0.  A value that does not fit in
  64 bits gives \<open>ULLONG_MAX\<close> (the function saturates, it does not reduce modulo
  \<open>2 ^ 64\<close>); a value in range after a minus sign is negated in the unsigned type.
\<close>

definition isspace :: "char \<Rightarrow> bool" where
  "isspace c = (c \<in> {CHR '' '', CHR 0x09, CHR 0x0A, CHR 0x0B, CHR 0x0C, CHR 0x0D})"

definition isdigit :: "char \<Rightarrow> bool" where
  "isdigit c = (c \<in> set ''0123456789'')"

definition digit_val :: "char \<Rightarrow> nat" where
  "digit_val c = of_char c - 48"

definition dec_value :: "string \<Rightarrow> nat" where
  "dec_value s = foldl (\<lambda>acc c. acc * 10 + digit_val c) 0 s"

definition strtoull :: "string \<Rightarrow> uint64_t" where
  "strtoull s =
     (let s1 = dropWhile isspace s;
          neg = (case s1 of c # _ \<Rightarrow> c = CHR ''-'' | [] \<Rightarrow> False);
          s2 = (case s1 of c # cs \<Rightarrow> if c = CHR ''-'' \<or> c = CHR ''+'' then cs else s1 | [] \<Rightarrow> s1);
          v = dec_value (takeWhile isdigit s2)
      in if 2 ^ 64 \<le> v then ULLONG_MAX
         else if neg then - word_of_nat v else word_of_nat v)"

section \<open>The program\<close>

subsection \<open>\<^verbatim>\<open>generate_seed\<close>\<close>

text \<open>
  The loop \<^verbatim>\<open>for (int i = 1; i <= k; i++)\<close> with the buffer \<open>seed_str\<close> as its
  state (the parameter \<^verbatim>\<open>k\<close> is written \<open>kk\<close>, since \<open>k\<close> is the field of the
  record).  Each round formats \<open>i\<close> into \<open>temp\<close> (at most 11 characters, which fit
  the 16 bytes of \<open>temp\<close>) and appends it; the buffer of 256 bytes must hold the
  characters and the terminating NUL.  Then \<open>i\<close> is incremented.
\<close>

function seed_loop :: "int \<Rightarrow> int \<Rightarrow> string \<Rightarrow> fault + string" where
  "seed_loop i kk seed_str =
     (if i \<le> kk then
        (let temp = fmt_d i in
         if 256 < length seed_str + length temp + 1 then Inl BufferOverflow
         else if i = INT_MAX then Inl SignedOverflow
         else seed_loop (i + 1) kk (seed_str @ temp))
      else Inr seed_str)"
  by pat_completeness auto
termination
  by (relation "measure (\<lambda>(i, kk, seed_str). nat (kk + 1 - i))") auto

definition generate_seed :: "int \<Rightarrow> fault + uint64_t" where
  "generate_seed kk =
     (case seed_loop 1 kk [] of
        Inl e \<Rightarrow> Inl e
      | Inr seed_str \<Rightarrow> Inr (strtoull seed_str))"

subsection \<open>\<^verbatim>\<open>binary_fusion_tap\<close>\<close>

text \<open>
  The addition \<^verbatim>\<open>heartbeat_val + k\<close> converts the \<^verbatim>\<open>int\<close> to \<^verbatim>\<open>uint64_t\<close>
  first, that is, reduces it modulo \<open>2 ^ 64\<close>: \<open>word_of_int k\<close>.
\<close>

definition binary_fusion_tap :: "int \<Rightarrow> fault + BinaryFusionResult" where
  "binary_fusion_tap kk =
     (case generate_seed kk of
        Inl e \<Rightarrow> Inl e
      | Inr seed \<Rightarrow>
          (let heartbeat_val = push_bit 3 seed;
               tap = heartbeat_val + word_of_int kk;
               zpe = (if kk < 10 then 0 else tap XOR (seed * 8))
           in Inr \<lparr>k = kk, seed_value = seed, tap_state = tap, zpe_overflow = zpe\<rparr>))"

subsection \<open>\<^verbatim>\<open>print_binary\<close>\<close>

text \<open>
  The recursion prints the binary digits of \<open>n div 2\<close> first when \<open>n > 1\<close>, then the
  last digit \<open>n mod 2\<close> with \<^verbatim>\<open>%llu\<close>.  The argument \<open>out\<close> is standard output
  before the call, the result standard output after it.
\<close>

function (domintros) print_binary :: "uint64_t \<Rightarrow> string \<Rightarrow> string" where
  "print_binary n out =
     (let out1 = (if 1 < n then print_binary (n div 2) out else out)
      in out1 @ fmt_llu (n mod 2))"
  by pat_completeness auto

termination print_binary
  by (relation "measure (\<lambda>(n, out). unat n)") (auto simp: unat_div word_less_nat_alt)

subsection \<open>\<^verbatim>\<open>main\<close>\<close>

text \<open>
  \<open>main\<close> calls \<open>binary_fusion_tap 11\<close> and prints the four fields; its result is the
  exit status together with standard output.
\<close>

definition main :: "string \<Rightarrow> fault + (int \<times> string)" where
  "main out0 =
     (case binary_fusion_tap 11 of
        Inl e \<Rightarrow> Inl e
      | Inr result \<Rightarrow>
          (let out1 = out0 @ ''K Parameter: '' @ fmt_d (k result) @ [CHR 0x0A];
               out2 = out1 @ ''Seed Value: '' @ fmt_llu (seed_value result) @ [CHR 0x0A];
               out3 = out2 @ ''Tap State: 0b'';
               out4 = print_binary (tap_state result) out3;
               out5 = out4 @ [CHR 0x0A];
               out6 = out5 @ ''ZPE Overflow: 0b'';
               out7 = print_binary (zpe_overflow result) out6;
               out8 = out7 @ '' (decimal: '' @ fmt_llu (zpe_overflow result) @ '')'' @ [CHR 0x0A]
           in Inr (0, out8)))"

section \<open>What the specification speaks of\<close>

text \<open>
  The specification describes the seed as the numeral obtained by writing the decimal
  representations of \<open>1, \<dots>, k\<close> one after the other, read in base 10 without any bound
  on its size.  \<open>seed_text\<close> is that text and \<open>seed_numeral\<close> its exact value, both
  independent of the buffer and of the 64-bit result type of the program.
\<close>

definition seed_text :: "int \<Rightarrow> string" where
  "seed_text kk = concat (map fmt_d [1..kk])"

definition seed_numeral :: "int \<Rightarrow> nat" where
  "seed_numeral kk = dec_value (seed_text kk)"

text \<open>
  Reading a string of binary digits, most significant digit first: the value read so
  far is doubled and the next digit added.
\<close>

definition parse_binary :: "string \<Rightarrow> nat" where
  "parse_binary s = foldl (\<lambda>acc c. 2 * acc + (if c = CHR ''1'' then 1 else 0)) 0 s"

section \<open>The seed loop in closed form\<close>

declare seed_loop.simps [simp del] dec_digits.simps [simp del] print_binary.simps [simp del]

lemma dec_digits_nonempty: "dec_digits n \<noteq> []"
  by (subst dec_digits.simps) simp

lemma fmt_d_nonempty: "fmt_d i \<noteq> []"
  by (simp add: fmt_d_def dec_digits_nonempty)

lemma length_fmt_d: "1 \<le> length (fmt_d i)"
  using fmt_d_nonempty [of i] by (cases "fmt_d i") simp_all

lemma seed_loop_closed:
  "i - 1 \<le> int (length buf) \<Longrightarrow> length buf \<le> 255 \<Longrightarrow>
   seed_loop i kk buf =
     (if length (buf @ concat (map fmt_d [i..kk])) \<le> 255
      then Inr (buf @ concat (map fmt_d [i..kk])) else Inl BufferOverflow)"
proof (induction i kk buf rule: seed_loop.induct)
  case (1 i kk seed_str)
  show ?case
  proof (cases "i \<le> kk")
    case False
    with "1.prems" show ?thesis by (subst seed_loop.simps) simp
  next
    case True
    then have up: "[i..kk] = i # [i + 1..kk]" by (simp add: upto_rec1)
    show ?thesis
    proof (cases "256 < length seed_str + length (fmt_d i) + 1")
      case over: True
      with True up show ?thesis by (subst seed_loop.simps) simp
    next
      case fits: False
      with "1.prems" have ne: "i \<noteq> INT_MAX" by (auto simp: INT_MAX_def)
      have "seed_loop (i + 1) kk (seed_str @ fmt_d i) =
        (if length ((seed_str @ fmt_d i) @ concat (map fmt_d [i + 1..kk])) \<le> 255
         then Inr ((seed_str @ fmt_d i) @ concat (map fmt_d [i + 1..kk])) else Inl BufferOverflow)"
        using True fits ne "1.prems" length_fmt_d [of i]
        by (intro "1.IH" [OF True refl]) auto
      with True fits ne up show ?thesis by (subst seed_loop.simps) simp
    qed
  qed
qed

lemma generate_seed_closed:
  "generate_seed kk =
     (if length (seed_text kk) \<le> 255 then Inr (strtoull (seed_text kk)) else Inl BufferOverflow)"
  using seed_loop_closed [of 1 "[]" kk] by (simp add: generate_seed_def seed_text_def)


lemma seed_text_nonpos: "kk \<le> 0 \<Longrightarrow> seed_text kk = []"
  by (simp add: seed_text_def)

lemma seed_text_prefix:
  assumes "0 \<le> j" "j \<le> kk"
  shows "seed_text kk = seed_text j @ concat (map fmt_d [j + 1..kk])"
proof -
  have "[1..kk] = [1..j] @ [j + 1..kk]"
    using assms upto_split2 [of 1 j kk] by (cases "j = 0") (simp_all)
  then show ?thesis by (simp add: seed_text_def)
qed

lemma length_seed_text_mono: "j \<le> kk \<Longrightarrow> length (seed_text j) \<le> length (seed_text kk)"
proof (cases "0 \<le> j")
  case True
  assume "j \<le> kk"
  with True show ?thesis using seed_text_prefix [of j kk] by simp
next
  case False
  then show ?thesis by (simp add: seed_text_nonpos)
qed

lemmas fmt_eval = fmt_d_def digit_char_def dec_digits.simps upto.simps [of 1 "numeral n"] for n

lemma length_seed_text_121: "length (seed_text 121) = 255"
  by (simp add: seed_text_def fmt_eval)

lemma length_seed_text_122: "length (seed_text 122) = 258"
  by (simp add: seed_text_def fmt_eval)

lemma seed_text_fits: "length (seed_text kk) \<le> 255 \<longleftrightarrow> kk \<le> 121"
proof
  assume "kk \<le> 121"
  then show "length (seed_text kk) \<le> 255"
    using length_seed_text_mono [of kk 121] by (simp add: length_seed_text_121)
next
  assume a: "length (seed_text kk) \<le> 255"
  show "kk \<le> 121"
  proof (rule ccontr)
    assume "\<not> kk \<le> 121"
    then have "122 \<le> kk" by simp
    from length_seed_text_mono [OF this] a show False
      by (simp add: length_seed_text_122)
  qed
qed


lemma digit_char_isdigit: "d < 10 \<Longrightarrow> isdigit (digit_char d)"
  by (simp add: isdigit_def digit_char_def nth_Cons' )

lemma dec_digits_isdigit: "c \<in> set (dec_digits n) \<Longrightarrow> isdigit c"
proof (induction n rule: dec_digits.induct)
  case (1 n)
  then show ?case
    by (subst (asm) (2) dec_digits.simps) (auto simp: digit_char_isdigit split: if_splits)
qed

lemma seed_text_isdigit: "c \<in> set (seed_text kk) \<Longrightarrow> isdigit c"
  by (auto simp: seed_text_def fmt_d_def dec_digits_isdigit)

lemma isdigit_not_special: "isdigit c \<Longrightarrow> \<not> isspace c \<and> c \<noteq> CHR ''-'' \<and> c \<noteq> CHR ''+''"
  by (auto simp: isdigit_def isspace_def)

lemma strtoull_digits:
  assumes "\<forall>c\<in>set s. isdigit c"
  shows "strtoull s = (if 2 ^ 64 \<le> dec_value s then ULLONG_MAX else word_of_nat (dec_value s))"
proof (cases s)
  case Nil
  then show ?thesis by (simp add: strtoull_def dec_value_def)
next
  case (Cons c cs)
  with assms have "isdigit c" by simp
  then have c: "\<not> isspace c" "c \<noteq> CHR ''-''" "c \<noteq> CHR ''+''"
    using isdigit_not_special by blast+
  have tw: "takeWhile isdigit s = s"
    using assms by (simp add: takeWhile_eq_all_conv)
  show ?thesis
    using c tw by (simp add: strtoull_def Cons Let_def)
qed

lemma dec_value_append: "dec_value (a @ b) = dec_value a * 10 ^ length b + dec_value b"
proof (induction b rule: rev_induct)
  case Nil
  then show ?case by (simp add: dec_value_def)
next
  case (snoc x xs)
  have "dec_value (a @ xs @ [x]) = dec_value (a @ xs) * 10 + digit_val x"
    by (simp add: dec_value_def)
  also have "\<dots> = (dec_value a * 10 ^ length xs + dec_value xs) * 10 + digit_val x"
    by (simp add: snoc.IH)
  also have "\<dots> = dec_value a * 10 ^ length (xs @ [x]) + dec_value (xs @ [x])"
    by (simp add: dec_value_def algebra_simps)
  finally show ?case by simp
qed

lemma dec_value_append_ge: "dec_value a \<le> dec_value (a @ b)"
proof -
  have "dec_value a \<le> dec_value a * 10 ^ length b"
    by simp
  then show ?thesis
    unfolding dec_value_append by (rule trans_le_add1)
qed

lemma seed_numeral_mono: "0 \<le> j \<Longrightarrow> j \<le> kk \<Longrightarrow> seed_numeral j \<le> seed_numeral kk"
  using seed_text_prefix [of j kk] dec_value_append_ge [of "seed_text j"]
  by (simp add: seed_numeral_def)

lemmas parse_eval = dec_value_def digit_val_def

lemma seed_numeral_14: "seed_numeral 14 = 1234567891011121314"
  by (simp add: seed_numeral_def seed_text_def fmt_eval parse_eval)

lemma seed_numeral_15: "seed_numeral 15 = 123456789101112131415"
  by (simp add: seed_numeral_def seed_text_def fmt_eval parse_eval)

lemma seed_numeral_16: "seed_numeral 16 = 12345678910111213141516"
  by (simp add: seed_numeral_def seed_text_def fmt_eval parse_eval)

lemma generate_seed_char:
  "generate_seed kk =
     (if kk \<le> 121
      then Inr (if 2 ^ 64 \<le> seed_numeral kk then ULLONG_MAX else word_of_nat (seed_numeral kk))
      else Inl BufferOverflow)"
  using strtoull_digits [of "seed_text kk"] seed_text_isdigit [of _ kk]
  by (simp add: generate_seed_closed seed_text_fits seed_numeral_def)

lemma seed_numeral_large: "15 \<le> kk \<Longrightarrow> 2 ^ 64 \<le> seed_numeral kk"
  using seed_numeral_mono [of 15 kk] by (simp add: seed_numeral_15)

lemma seed_numeral_small: "kk \<le> 14 \<Longrightarrow> seed_numeral kk < 2 ^ 64"
proof (cases "0 \<le> kk")
  case True
  assume "kk \<le> 14"
  with True show ?thesis using seed_numeral_mono [of kk 14] by (simp add: seed_numeral_14)
next
  case False
  then show ?thesis by (simp add: seed_numeral_def seed_text_nonpos dec_value_def)
qed

lemma binary_fusion_tap_Inr:
  "binary_fusion_tap kk = Inr r \<Longrightarrow>
   kk \<le> 121 \<and> generate_seed kk = Inr (seed_value r) \<and> k r = kk \<and>
   tap_state r = push_bit 3 (seed_value r) + word_of_int kk \<and>
   zpe_overflow r = (if kk < 10 then 0 else tap_state r XOR (seed_value r * 8))"
  by (auto simp: binary_fusion_tap_def generate_seed_char Let_def split: sum.splits if_splits)

lemma binary_fusion_tap_returns: "kk \<le> 121 \<Longrightarrow> \<exists>r. binary_fusion_tap kk = Inr r"
  by (simp add: binary_fusion_tap_def generate_seed_char Let_def)

lemma binary_fusion_tap_faults: "121 < kk \<Longrightarrow> binary_fusion_tap kk = Inl BufferOverflow"
  by (simp add: binary_fusion_tap_def generate_seed_char)

section \<open>Evaluation and word arithmetic\<close>

lemmas seed_eval = generate_seed_def seed_loop.simps INT_MAX_def strtoull_def isspace_def
  isdigit_def fmt_eval parse_eval

lemmas tap_eval = binary_fusion_tap_def seed_eval

lemma mod_2_64_mod_8: "(x :: int) mod 2 ^ 64 mod 8 = x mod 8"
  by (rule mod_mod_cancel) simp

lemma mod_2_64_mod_8_num: "(x :: int) mod 18446744073709551616 mod 8 = x mod 8"
  by (rule mod_mod_cancel) simp

lemma uint_shift3_add:
  "uint (push_bit 3 (s :: uint64_t) + word_of_int j) = (uint s * 2 ^ 3 + j) mod 2 ^ 64"
proof -
  have "push_bit 3 s + word_of_int j = (word_of_int (uint s * 2 ^ 3 + j) :: uint64_t)"
    by (simp add: push_bit_eq_mult)
  then show ?thesis
    by (simp only: uint_word_of_int) simp
qed

lemma uint_mod8: "uint ((x :: uint64_t) mod 8) = uint x mod 8"
  by (simp add: uint_mod)

lemma tap_state_uint:
  "binary_fusion_tap kk = Inr r \<Longrightarrow> uint (tap_state r) = (uint (seed_value r) * 2 ^ 3 + kk) mod 2 ^ 64"
  using binary_fusion_tap_Inr [of kk r] by (simp only: uint_shift3_add)

lemma word_xor_eq_0: "(a :: uint64_t) XOR b = 0 \<longleftrightarrow> a = b"
  by (simp add: bit_eq_iff bit_xor_iff)

lemma low_bits_of_result:
  "binary_fusion_tap kk = Inr r \<Longrightarrow>
   uint (tap_state r) mod 8 = kk mod 8 \<and>
   tap_state r mod 8 = word_of_int kk mod 8 \<and>
   push_bit 3 (seed_value r) mod 8 = (0 :: uint64_t)"
proof -
  assume a: "binary_fusion_tap kk = Inr r"
  have "uint (tap_state r) mod 8 = (uint (seed_value r) * 2 ^ 3 + kk) mod 8"
    by (simp only: tap_state_uint [OF a] mod_2_64_mod_8)
  then have i: "uint (tap_state r) mod 8 = kk mod 8"
    by simp
  have "uint (word_of_int kk mod 8 :: uint64_t) = kk mod 8"
    by (simp only: uint_mod8 uint_word_of_int) (simp add: mod_2_64_mod_8_num)
  with i have w: "tap_state r mod 8 = word_of_int kk mod 8"
    by (simp add: word_uint_eq_iff uint_mod8)
  have "uint (push_bit 3 (seed_value r) mod 8 :: uint64_t) = 0"
    using uint_shift3_add [of "seed_value r" 0]
    by (simp add: uint_mod8 mod_2_64_mod_8_num)
  then have z: "push_bit 3 (seed_value r) mod 8 = (0 :: uint64_t)"
    by (simp add: word_uint_eq_iff)
  from i w z show ?thesis by simp
qed

lemma zpe_nonzero_of_result:
  "binary_fusion_tap kk = Inr r \<Longrightarrow> 10 \<le> kk \<Longrightarrow> zpe_overflow r \<noteq> 0"
proof -
  assume a: "binary_fusion_tap kk = Inr r" and b: "10 \<le> kk"
  from a have le: "kk \<le> 121"
    and z: "zpe_overflow r = (push_bit 3 (seed_value r) + word_of_int kk) XOR (seed_value r * 8)"
    using binary_fusion_tap_Inr [of kk r] b by auto
  have "(word_of_int kk :: uint64_t) \<noteq> 0"
    using le b by (simp add: word_of_int_eq_0_iff zdvd_not_zless)
  then have "push_bit 3 (seed_value r) + word_of_int kk \<noteq> seed_value r * 8"
    by (simp add: push_bit_eq_mult)
  then show ?thesis unfolding z by (simp add: word_xor_eq_0)
qed

section \<open>The pipeline\<close>

text \<open>
  The claims about the fields of the result speak of every integer \<open>k\<close>.  The program
  produces a result only while the text of \<open>1, \<dots>, k\<close> fits the buffer, that is, for
  \<open>k \<le> 121\<close>; from \<open>k = 122\<close> on \<^verbatim>\<open>strcat\<close> writes beyond \<open>seed_str\<close> and no result
  is defined.  Each of these claims is therefore refuted at one input beyond the bound and
  proved, together with the existence of the result, for every \<open>k\<close> within it.
\<close>

text \<open>
  Claim C1 (overflow gating), as stated for every integer \<open>k\<close>.  At \<open>k = 122\<close>, in the
  regime \<open>k \<ge> 10\<close>, the text has 258 characters and \<open>binary_fusion_tap\<close> yields no
  result, hence no \<open>zpe_overflow\<close>.
\<close>

theorem overflow_gating_counterexample:
  "(10 :: int) \<le> 122 \<and> length (seed_text 122) = 258 \<and>
   binary_fusion_tap 122 = Inl BufferOverflow"
  using binary_fusion_tap_faults [of 122] by (simp add: length_seed_text_122)

text \<open>
  Claim C1, amended.  For every \<open>k \<le> 121\<close>, \<open>binary_fusion_tap k\<close> returns a result
  whose field \<open>zpe_overflow\<close> is \<open>0\<close> if \<open>k < 10\<close> and is
  \<open>tap_state XOR (seed_value * 8)\<close>, the product taken modulo \<open>2 ^ 64\<close>, if \<open>k \<ge> 10\<close>.
\<close>

theorem overflow_gating:
  "kk \<le> 121 \<Longrightarrow>
   \<exists>r. binary_fusion_tap kk = Inr r \<and>
       zpe_overflow r = (if kk < 10 then 0 else tap_state r XOR (seed_value r * 8))"
proof -
  assume "kk \<le> 121"
  then obtain r where r: "binary_fusion_tap kk = Inr r"
    using binary_fusion_tap_returns by blast
  then have z: "zpe_overflow r = (if kk < 10 then 0 else tap_state r XOR (seed_value r * 8))"
    using binary_fusion_tap_Inr [of kk r] by simp
  show ?thesis
    by (rule exI [of _ r]) (rule conjI [OF r z])
qed

theorem overflow_gating_witness:
  "(12 :: int) \<le> 121 \<and>
   binary_fusion_tap 12 =
     Inr \<lparr>k = 12, seed_value = 123456789101112, tap_state = 987654312808908, zpe_overflow = 12\<rparr> \<and>
   (12 :: uint64_t) = 987654312808908 XOR (123456789101112 * 8) \<and>
   (9 :: int) \<le> 121 \<and>
   binary_fusion_tap 9 =
     Inr \<lparr>k = 9, seed_value = 123456789, tap_state = 987654321, zpe_overflow = 0\<rparr>"
proof -
  have h: "binary_fusion_tap 12 =
     Inr \<lparr>k = 12, seed_value = 123456789101112, tap_state = 987654312808908, zpe_overflow = 12\<rparr>"
    by (simp add: tap_eval)
  have g: "binary_fusion_tap 9 =
     Inr \<lparr>k = 9, seed_value = 123456789, tap_state = 987654321, zpe_overflow = 0\<rparr>"
    by (simp add: tap_eval)
  from overflow_gating [of 12] overflow_gating [of 9] h g show ?thesis by simp
qed

text \<open>
  Claim C2 (transform identity), as stated for every integer \<open>k\<close>.  At \<open>k = 200\<close> the
  buffer is overrun and there is no result whose \<open>tap_state\<close> could be compared.
\<close>

theorem tap_state_transform_counterexample:
  "binary_fusion_tap 200 = Inl BufferOverflow"
  using binary_fusion_tap_faults [of 200] by simp

text \<open>
  Claim C2, amended.  For every \<open>k \<le> 121\<close>, also a negative one, \<open>binary_fusion_tap k\<close>
  returns a result whose \<open>tap_state\<close> is the seed shifted left by three bits plus \<open>k\<close>
  converted to 64 bits, both operations wrapping; read as an unsigned number it is
  \<open>(seed_value * 2 ^ 3 + k) mod 2 ^ 64\<close>.
\<close>

theorem tap_state_transform:
  "kk \<le> 121 \<Longrightarrow>
   \<exists>r. binary_fusion_tap kk = Inr r \<and>
       tap_state r = push_bit 3 (seed_value r) + word_of_int kk \<and>
       uint (tap_state r) = (uint (seed_value r) * 2 ^ 3 + kk) mod 2 ^ 64"
proof -
  assume "kk \<le> 121"
  then obtain r where r: "binary_fusion_tap kk = Inr r"
    using binary_fusion_tap_returns by blast
  then have t: "tap_state r = push_bit 3 (seed_value r) + word_of_int kk"
    and u: "uint (tap_state r) = (uint (seed_value r) * 2 ^ 3 + kk) mod 2 ^ 64"
    using binary_fusion_tap_Inr [of kk r] tap_state_uint [of kk r] by simp_all
  show ?thesis
    by (rule exI [of _ r]) (rule conjI [OF r conjI [OF t u]])
qed

text \<open>
  The witness takes three inputs: \<open>k = 16\<close>, where the seed is \<open>2 ^ 64 - 1\<close> and both
  the shift and the addition wrap (\<open>tap_state = 8\<close>); \<open>k = 14\<close>, the largest exact seed,
  where nothing wraps; and \<open>k = - 3\<close>, where the conversion of \<open>k\<close> wraps.
\<close>

theorem tap_state_transform_witness:
  "(16 :: int) \<le> 121 \<and>
   binary_fusion_tap 16 =
     Inr \<lparr>k = 16, seed_value = 18446744073709551615, tap_state = 8,
          zpe_overflow = 18446744073709551600\<rparr> \<and>
   (8 :: uint64_t) = push_bit 3 18446744073709551615 + word_of_int 16 \<and>
   uint (8 :: uint64_t) = (uint (18446744073709551615 :: uint64_t) * 2 ^ 3 + 16) mod 2 ^ 64 \<and>
   (14 :: int) \<le> 121 \<and>
   binary_fusion_tap 14 =
     Inr \<lparr>k = 14, seed_value = 1234567891011121314, tap_state = 9876543128088970526,
          zpe_overflow = 14\<rparr> \<and>
   uint (9876543128088970526 :: uint64_t) =
     (uint (1234567891011121314 :: uint64_t) * 2 ^ 3 + 14) mod 2 ^ 64 \<and>
   (- 3 :: int) \<le> 121 \<and>
   binary_fusion_tap (- 3) =
     Inr \<lparr>k = - 3, seed_value = 0, tap_state = 18446744073709551613, zpe_overflow = 0\<rparr> \<and>
   uint (18446744073709551613 :: uint64_t) = (uint (0 :: uint64_t) * 2 ^ 3 + (- 3)) mod 2 ^ 64"
proof -
  have a: "binary_fusion_tap 16 =
     Inr \<lparr>k = 16, seed_value = 18446744073709551615, tap_state = 8,
          zpe_overflow = 18446744073709551600\<rparr>"
    by (simp add: tap_eval ULLONG_MAX_def)
  have b: "binary_fusion_tap 14 =
     Inr \<lparr>k = 14, seed_value = 1234567891011121314, tap_state = 9876543128088970526,
          zpe_overflow = 14\<rparr>"
    by (simp add: tap_eval)
  have c: "binary_fusion_tap (- 3) =
     Inr \<lparr>k = - 3, seed_value = 0, tap_state = 18446744073709551613, zpe_overflow = 0\<rparr>"
    by (simp add: tap_eval)
  from tap_state_transform [of 16] tap_state_transform [of 14] tap_state_transform [of "- 3"]
    a b c
  show ?thesis by simp
qed

text \<open>
  Claim C4 (reference invocation).  For \<open>k = 11\<close> the result has
  \<open>seed_value = 1234567891011\<close>, \<open>tap_state = 9876543128099\<close> and \<open>zpe_overflow = 59\<close>.
\<close>

theorem reference_invocation:
  "binary_fusion_tap 11 =
     Inr \<lparr>k = 11, seed_value = 1234567891011, tap_state = 9876543128099, zpe_overflow = 59\<rparr>"
  by (simp add: tap_eval)

text \<open>
  Claim C5 (non-positive parameter).  For every \<open>k \<le> 0\<close> the loop body never runs,
  the buffer stays empty and \<open>generate_seed\<close> returns \<open>0\<close>; for \<open>k = 0\<close> the whole
  pipeline yields \<open>seed_value = 0\<close>, \<open>tap_state = 0\<close> and \<open>zpe_overflow = 0\<close>.
\<close>

theorem nonpositive_seed:
  "(kk \<le> 0 \<longrightarrow> generate_seed kk = Inr 0) \<and>
   binary_fusion_tap 0 = Inr \<lparr>k = 0, seed_value = 0, tap_state = 0, zpe_overflow = 0\<rparr>"
proof -
  have "generate_seed kk = Inr 0" if "kk \<le> 0"
    using that by (simp add: generate_seed_def seed_loop.simps strtoull_def dec_value_def)
  moreover have "binary_fusion_tap 0 = Inr \<lparr>k = 0, seed_value = 0, tap_state = 0, zpe_overflow = 0\<rparr>"
    by (simp add: tap_eval)
  ultimately show ?thesis by simp
qed

theorem nonpositive_seed_witness:
  "(- 7 :: int) \<le> 0 \<and> generate_seed (- 7) = Inr 0"
  using nonpositive_seed [of "- 7"] by simp

text \<open>
  Claim C9 (low three bits), as stated for every integer \<open>k\<close>.  At \<open>k = 1000\<close> the
  buffer is overrun and there is no \<open>tap_state\<close> whose low bits could encode \<open>k\<close>.
\<close>

theorem low_bits_phase_counterexample:
  "binary_fusion_tap 1000 = Inl BufferOverflow"
  using binary_fusion_tap_faults [of 1000] by simp

text \<open>
  Claim C9, amended.  For every \<open>k \<le> 121\<close>, \<open>binary_fusion_tap k\<close> returns a result
  whose \<open>tap_state\<close> has the low three bits of \<open>k\<close>: \<open>tap_state mod 8 = k mod 8\<close>, with
  \<open>k\<close> reduced modulo \<open>2 ^ 64\<close> as an unsigned value, because the shifted seed is \<open>0\<close>
  modulo \<open>8\<close>.
\<close>

theorem low_bits_phase:
  "kk \<le> 121 \<Longrightarrow>
   \<exists>r. binary_fusion_tap kk = Inr r \<and>
       uint (tap_state r) mod 8 = kk mod 8 \<and>
       tap_state r mod 8 = word_of_int kk mod 8 \<and>
       push_bit 3 (seed_value r) mod 8 = (0 :: uint64_t)"
proof -
  assume "kk \<le> 121"
  then obtain r where r: "binary_fusion_tap kk = Inr r"
    using binary_fusion_tap_returns by blast
  show ?thesis
    by (rule exI [of _ r]) (rule conjI [OF r low_bits_of_result [OF r]])
qed

theorem low_bits_phase_witness:
  "(13 :: int) \<le> 121 \<and>
   binary_fusion_tap 13 =
     Inr \<lparr>k = 13, seed_value = 12345678910111213, tap_state = 98765431280889717, zpe_overflow = 29\<rparr> \<and>
   uint (98765431280889717 :: uint64_t) mod 8 = 13 mod 8 \<and>
   (- 3 :: int) \<le> 121 \<and>
   binary_fusion_tap (- 3) =
     Inr \<lparr>k = - 3, seed_value = 0, tap_state = 18446744073709551613, zpe_overflow = 0\<rparr> \<and>
   uint (18446744073709551613 :: uint64_t) mod 8 = (- 3) mod 8"
proof -
  have h: "binary_fusion_tap 13 =
     Inr \<lparr>k = 13, seed_value = 12345678910111213, tap_state = 98765431280889717, zpe_overflow = 29\<rparr>"
    by (simp add: tap_eval)
  have c: "binary_fusion_tap (- 3) =
     Inr \<lparr>k = - 3, seed_value = 0, tap_state = 18446744073709551613, zpe_overflow = 0\<rparr>"
    by (simp add: tap_eval)
  from low_bits_phase [of 13] low_bits_phase [of "- 3"] h c show ?thesis by simp
qed

text \<open>
  Claim C10 (active regime), as stated for every integer \<open>k \<ge> 10\<close>.  At \<open>k = 123\<close> the
  buffer is overrun and there is no \<open>zpe_overflow\<close>, zero or not.
\<close>

theorem active_overflow_nonzero_counterexample:
  "(10 :: int) \<le> 123 \<and> binary_fusion_tap 123 = Inl BufferOverflow"
  using binary_fusion_tap_faults [of 123] by simp

text \<open>
  Claim C10, amended.  For every \<open>k\<close> with \<open>10 \<le> k \<le> 121\<close>, \<open>binary_fusion_tap k\<close>
  returns a result whose \<open>zpe_overflow\<close> is not zero: \<open>k\<close> is not \<open>0\<close> modulo \<open>2 ^ 64\<close>,
  so \<open>tap_state\<close> differs from \<open>seed_value * 8\<close>.
\<close>

theorem active_overflow_nonzero:
  "10 \<le> kk \<Longrightarrow> kk \<le> 121 \<Longrightarrow>
   \<exists>r. binary_fusion_tap kk = Inr r \<and> zpe_overflow r \<noteq> 0"
proof -
  assume b: "10 \<le> kk" and "kk \<le> 121"
  then obtain r where r: "binary_fusion_tap kk = Inr r"
    using binary_fusion_tap_returns by blast
  show ?thesis
    by (rule exI [of _ r]) (rule conjI [OF r zpe_nonzero_of_result [OF r b]])
qed

theorem active_overflow_nonzero_witness:
  "(10 :: int) \<le> 10 \<and> (10 :: int) \<le> 121 \<and>
   binary_fusion_tap 10 =
     Inr \<lparr>k = 10, seed_value = 12345678910, tap_state = 98765431290, zpe_overflow = 10\<rparr> \<and>
   (10 :: uint64_t) \<noteq> 0 \<and>
   (10 :: int) \<le> 16 \<and> (16 :: int) \<le> 121 \<and>
   binary_fusion_tap 16 =
     Inr \<lparr>k = 16, seed_value = 18446744073709551615, tap_state = 8,
          zpe_overflow = 18446744073709551600\<rparr> \<and>
   (18446744073709551600 :: uint64_t) \<noteq> 0"
proof -
  have h: "binary_fusion_tap 10 =
     Inr \<lparr>k = 10, seed_value = 12345678910, tap_state = 98765431290, zpe_overflow = 10\<rparr>"
    by (simp add: tap_eval)
  have a: "binary_fusion_tap 16 =
     Inr \<lparr>k = 16, seed_value = 18446744073709551615, tap_state = 8,
          zpe_overflow = 18446744073709551600\<rparr>"
    by (simp add: tap_eval ULLONG_MAX_def)
  from active_overflow_nonzero [of 10] active_overflow_nonzero [of 16] h a show ?thesis by simp
qed

text \<open>
  Claim C3 (beyond the safe range), as stated: for \<open>k > 15\<close> the result of
  \<open>generate_seed\<close> is the exact numeral of \<open>1, \<dots>, k\<close> reduced modulo \<open>2 ^ 64\<close>.  This
  fails at \<open>k = 16\<close>: the numeral is \<open>12345678910111213141516\<close>, which is
  \<open>4807124799523110412\<close> modulo \<open>2 ^ 64\<close>, while \<open>strtoull\<close> saturates and the function
  returns \<open>2 ^ 64 - 1\<close>.
\<close>

theorem seed_beyond_safe_range_counterexample:
  "(15 :: int) < 16 \<and>
   generate_seed 16 = Inr 18446744073709551615 \<and>
   seed_numeral 16 = 12345678910111213141516 \<and>
   seed_numeral 16 mod 2 ^ 64 = 4807124799523110412 \<and>
   generate_seed 16 \<noteq> Inr (word_of_nat (seed_numeral 16 mod 2 ^ 64))"
proof -
  have g: "generate_seed 16 = Inr 18446744073709551615"
    by (simp add: seed_eval ULLONG_MAX_def)
  show ?thesis unfolding g seed_numeral_16 by simp
qed

text \<open>
  Claim C3, amended.  For every \<open>k\<close> with \<open>15 < k \<le> 121\<close>, \<open>generate_seed k\<close> returns
  \<open>ULLONG_MAX = 2 ^ 64 - 1\<close>, the saturation value of \<open>strtoull\<close>; for \<open>k > 121\<close> the
  text of \<open>1, \<dots>, k\<close> does not fit the buffer of 256 bytes and the call has no defined
  result.
\<close>

theorem seed_beyond_safe_range:
  "15 < kk \<Longrightarrow>
   generate_seed kk = (if kk \<le> 121 then Inr ULLONG_MAX else Inl BufferOverflow)"
  using seed_numeral_large [of kk] by (simp add: generate_seed_char)

theorem seed_beyond_safe_range_witness:
  "(15 :: int) < 17 \<and> generate_seed 17 = Inr 18446744073709551615 \<and>
   (15 :: int) < 122 \<and> generate_seed 122 = Inl BufferOverflow"
  using seed_beyond_safe_range [of 17] seed_beyond_safe_range [of 122]
  by (simp add: ULLONG_MAX_def)

section \<open>The binary formatter\<close>

lemma fmt_llu_mod2: "fmt_llu (n mod 2) = [digit_char (unat n mod 2)]"
proof -
  have "unat (n mod 2) = unat n mod 2" by (simp add: unat_mod)
  moreover have "unat n mod 2 < 10" by (rule less_trans [of _ 2]) simp_all
  ultimately show ?thesis by (simp add: fmt_llu_def dec_digits.simps)
qed

lemma digit_char_mod2: "digit_char (m mod 2) = (if odd m then CHR ''1'' else CHR ''0'')"
  by (cases "even m") (simp_all add: digit_char_def odd_iff_mod_2_eq_one)

lemma print_binary_rec:
  "print_binary n out =
     (if 1 < n then print_binary (n div 2) out else out) @ [digit_char (unat n mod 2)]"
  by (subst print_binary.simps) (simp add: fmt_llu_mod2)

lemma print_binary_out: "print_binary n out = out @ print_binary n []"
proof (induction n out rule: print_binary.induct)
  case (1 n out)
  show ?case
  proof (cases "1 < n")
    case True
    with "1.IH" have "print_binary (n div 2) out = out @ print_binary (n div 2) []" by simp
    with True show ?thesis
      by (subst print_binary_rec, subst (2) print_binary_rec) simp
  next
    case False
    then show ?thesis
      by (subst print_binary_rec, subst (2) print_binary_rec) simp
  qed
qed

lemma parse_binary_snoc:
  "parse_binary (s @ [c]) = 2 * parse_binary s + (if c = CHR ''1'' then 1 else 0)"
  by (simp add: parse_binary_def)

lemma parse_digit_char: "(if digit_char (m mod 2) = CHR ''1'' then 1 else 0) = m mod 2"
  by (cases "even m") (simp_all add: digit_char_def odd_iff_mod_2_eq_one)

lemma not_gt1_cases: "\<not> 1 < (n :: uint64_t) \<Longrightarrow> n = 0 \<or> n = 1"
  by (metis word_less_1 not_less_iff_gr_or_eq)

lemma parse_print_binary: "parse_binary (print_binary n []) = unat n"
proof (induction n "[] :: string" rule: print_binary.induct)
  case (1 n)
  show ?case
  proof (cases "1 < n")
    case True
    with 1 have "parse_binary (print_binary (n div 2) []) = unat n div 2"
      by (simp add: unat_div)
    with True show ?thesis
      by (subst print_binary_rec) (simp add: parse_binary_snoc parse_digit_char)
  next
    case False
    then have "n = 0 \<or> n = 1" by (rule not_gt1_cases)
    then show ?thesis
      by (subst print_binary_rec) (auto simp: parse_binary_def digit_char_def)
  qed
qed

lemma print_binary_chars: "set (print_binary n []) \<subseteq> {CHR ''0'', CHR ''1''}"
proof (induction n "[] :: string" rule: print_binary.induct)
  case (1 n)
  then show ?case
    by (subst print_binary_rec) (auto simp: digit_char_mod2)
qed

lemma print_binary_zero: "print_binary 0 [] = ''0''"
  by (subst print_binary_rec) (simp add: digit_char_def)

lemma print_binary_leading: "n \<noteq> 0 \<Longrightarrow> \<exists>t. print_binary n [] = CHR ''1'' # t"
proof (induction n "[] :: string" rule: print_binary.induct)
  case (1 n)
  show ?case
  proof (cases "1 < n")
    case True
    then have "unat n div 2 \<noteq> 0" by (simp add: word_less_nat_alt)
    then have "unat (n div 2) \<noteq> 0" by (simp add: unat_div)
    then have "n div 2 \<noteq> 0" by auto
    with True 1 obtain t where "print_binary (n div 2) [] = CHR ''1'' # t" by blast
    with True show ?thesis by (subst print_binary_rec) simp
  next
    case False
    with "1.prems" have "n = 1" using not_gt1_cases by blast
    then show ?thesis by (subst print_binary_rec) (simp add: digit_char_def)
  qed
qed

lemma print_binary_dom_all: "print_binary_dom (n, out)"
proof (induction "unat n" arbitrary: n rule: less_induct)
  case less
  show ?case
  proof (rule print_binary.domintros)
    assume "1 < n"
    then have "unat (n div 2) < unat n" by (simp add: unat_div word_less_nat_alt)
    then show "print_binary_dom (n div 2, out)" by (rule less)
  qed
qed

lemma length_print_binary_pos: "0 < length (print_binary n [])"
  by (subst print_binary_rec) simp

lemma length_print_binary_le:
  "unat n < 2 ^ m \<Longrightarrow> 0 < m \<Longrightarrow> length (print_binary n []) \<le> m"
proof (induction m arbitrary: n)
  case 0
  then show ?case by simp
next
  case (Suc m)
  show ?case
  proof (cases "1 < n")
    case False
    then show ?thesis by (subst print_binary_rec) simp
  next
    case True
    then have two: "2 \<le> unat n" by (simp add: word_less_nat_alt)
    with Suc.prems have "0 < m" by (cases m) simp_all
    moreover from Suc.prems have "unat (n div 2) < 2 ^ m" by (simp add: unat_div)
    ultimately have "length (print_binary (n div 2) []) \<le> m" by (rule Suc.IH [rotated])
    with True show ?thesis by (subst print_binary_rec) simp
  qed
qed

lemma length_print_binary_64: "length (print_binary n []) \<le> 64"
proof -
  have "unat n < 2 ^ 64" using unsigned_less [of n] by simp
  then show ?thesis by (rule length_print_binary_le) simp
qed


lemmas print_eval = print_binary_rec digit_char_def

text \<open>
  Claim C6 (formatter round trip).  The text that \<open>print_binary n\<close> appends to standard
  output, read as a binary numeral with the most significant digit first, is \<open>n\<close>; it
  consists of the characters \<open>0\<close> and \<open>1\<close> only, begins with \<open>1\<close> when \<open>n > 0\<close> (no
  leading zero), and is the single character \<open>0\<close> when \<open>n = 0\<close>.
\<close>

theorem formatter_round_trip:
  "print_binary n out = out @ print_binary n [] \<and>
   parse_binary (print_binary n []) = unat n \<and>
   set (print_binary n []) \<subseteq> {CHR ''0'', CHR ''1''} \<and>
   (n \<noteq> 0 \<longrightarrow> (\<exists>t. print_binary n [] = CHR ''1'' # t)) \<and>
   (n = 0 \<longrightarrow> print_binary n [] = ''0'')"
  using print_binary_out [of n out] parse_print_binary [of n] print_binary_chars [of n]
    print_binary_leading [of n] print_binary_zero
  by blast

theorem formatter_round_trip_witness:
  "(5 :: uint64_t) \<noteq> 0 \<and> print_binary 5 [] = ''101'' \<and> parse_binary ''101'' = unat (5 :: uint64_t) \<and>
   (0 :: uint64_t) = 0 \<and> print_binary 0 [] = ''0''"
  using formatter_round_trip [of 5 "[]"] formatter_round_trip [of 0 "[]"]
  by (simp add: print_eval)

text \<open>
  Claim C7 (termination).  Every argument of \<open>print_binary\<close> is in the accessible part
  of its recursion relation, that is, the recursion on \<open>n div 2\<close> is well-founded; each
  call prints one character, at least one and at most 64 in all.  The boundary values
  \<open>0\<close> and \<open>2 ^ 64 - 1\<close> print one and 64 characters.
\<close>

theorem print_binary_terminates:
  "print_binary_dom (n, out) \<and>
   length out < length (print_binary n out) \<and>
   length (print_binary n out) \<le> length out + 64 \<and>
   print_binary 0 [] = ''0'' \<and>
   print_binary 18446744073709551615 [] =
     ''1111111111111111111111111111111111111111111111111111111111111111''"
proof -
  have "length (print_binary n out) = length out + length (print_binary n [])"
    by (subst print_binary_out) simp
  moreover have "print_binary 18446744073709551615 [] =
     ''1111111111111111111111111111111111111111111111111111111111111111''"
    by (simp add: print_eval)
  ultimately show ?thesis
    using print_binary_dom_all [of n out] length_print_binary_pos [of n]
      length_print_binary_64 [of n] print_binary_zero
    by simp
qed

text \<open>
  Claim C8 (report).  \<open>main\<close> writes four lines in this order: \<open>K Parameter: \<close> and \<open>k\<close>
  in decimal, \<open>Seed Value: \<close> and the seed in decimal, \<open>Tap State: 0b\<close> and the tap state
  in binary, \<open>ZPE Overflow: 0b\<close> and the overflow in binary followed by
  \<open> (decimal: \<close>, the overflow in decimal and \<open>)\<close>; it exits with status 0.
\<close>

theorem report_format:
  "main [] = Inr (0,
     ''K Parameter: 11'' @ [CHR 0x0A] @
     ''Seed Value: 1234567891011'' @ [CHR 0x0A] @
     ''Tap State: 0b10001111101110001111110110000100001000100011'' @ [CHR 0x0A] @
     ''ZPE Overflow: 0b111011 (decimal: 59)'' @ [CHR 0x0A]) \<and>
   (\<exists>r. binary_fusion_tap 11 = Inr r \<and>
        main out0 = Inr (0, out0 @
          ''K Parameter: '' @ fmt_d (k r) @ [CHR 0x0A] @
          ''Seed Value: '' @ fmt_llu (seed_value r) @ [CHR 0x0A] @
          ''Tap State: 0b'' @ print_binary (tap_state r) [] @ [CHR 0x0A] @
          ''ZPE Overflow: 0b'' @ print_binary (zpe_overflow r) [] @
            '' (decimal: '' @ fmt_llu (zpe_overflow r) @ '')'' @ [CHR 0x0A]))"
proof -
  have r: "binary_fusion_tap 11 =
     Inr \<lparr>k = 11, seed_value = 1234567891011, tap_state = 9876543128099, zpe_overflow = 59\<rparr>"
    by (simp add: tap_eval)
  have t: "print_binary 9876543128099 [] = ''10001111101110001111110110000100001000100011''"
    by (simp add: print_eval)
  have z: "print_binary 59 [] = ''111011''"
    by (simp add: print_eval)
  have g: "main out0 = Inr (0, out0 @
          ''K Parameter: '' @ fmt_d 11 @ [CHR 0x0A] @
          ''Seed Value: '' @ fmt_llu 1234567891011 @ [CHR 0x0A] @
          ''Tap State: 0b'' @ print_binary 9876543128099 [] @ [CHR 0x0A] @
          ''ZPE Overflow: 0b'' @ print_binary 59 [] @
            '' (decimal: '' @ fmt_llu 59 @ '')'' @ [CHR 0x0A])" for out0
    unfolding main_def r
    by (simp add: Let_def print_binary_out [of _ "_ @ _"])
  have c: "main [] = Inr (0,
     ''K Parameter: 11'' @ [CHR 0x0A] @
     ''Seed Value: 1234567891011'' @ [CHR 0x0A] @
     ''Tap State: 0b10001111101110001111110110000100001000100011'' @ [CHR 0x0A] @
     ''ZPE Overflow: 0b111011 (decimal: 59)'' @ [CHR 0x0A])"
    unfolding g t z by (simp add: fmt_llu_def fmt_eval)
  from r g c show ?thesis by simp
qed

end
